theory Spec2Isabelle
  imports Main "HOL-Library.Sublist" "HOL-Library.Word"
begin

section \<open>Python strings\<close>

text \<open>
  A Python \<^verbatim>\<open>str\<close> is modelled as a \<^typ>\<open>string\<close>: a list of characters whose
  codes are the code points 0 to 255. The string operations the crawler uses
  (\<^verbatim>\<open>lower\<close>, \<^verbatim>\<open>strip\<close>, \<^verbatim>\<open>in\<close>, \<^verbatim>\<open>split\<close>, \<^verbatim>\<open>re.search(r'\d{4}')\<close>) are
  written out on that range.
\<close>

definition code :: "char \<Rightarrow> nat" where
  "code c = of_char c"

text \<open>\<^verbatim>\<open>if text:\<close> on a value that is \<^verbatim>\<open>None\<close> or a \<^verbatim>\<open>str\<close>: true for a
  non-empty string only.\<close>

definition truthy :: "string option \<Rightarrow> bool" where
  "truthy text = (case text of None \<Rightarrow> False | Some s \<Rightarrow> s \<noteq> [])"

text \<open>\<^verbatim>\<open>str(i)\<close> of a non-negative integer, as the f-strings format the version
  number.\<close>

definition digit_char :: "nat \<Rightarrow> char" where
  "digit_char d = char_of (48 + d)"

fun str_nat :: "nat \<Rightarrow> string" where
  "str_nat n = (if n < 10 then [digit_char n] else str_nat (n div 10) @ [digit_char (n mod 10)])"

declare str_nat.simps [simp del]

text \<open>\<^verbatim>\<open>s.lower()\<close>: the upper-case letters of the range are A to Z and U+00C0 to
  U+00DE without the multiplication sign U+00D7; each maps to the letter 32 above.\<close>

definition lower_char :: "char \<Rightarrow> char" where
  "lower_char c =
     (let n = code c in
      if (65 \<le> n \<and> n \<le> 90) \<or> (192 \<le> n \<and> n \<le> 222 \<and> n \<noteq> 215) then char_of (n + 32) else c)"

definition lower :: "string \<Rightarrow> string" where
  "lower s = map lower_char s"

text \<open>\<^verbatim>\<open>s.strip()\<close> removes the white space of both ends: U+0009 to U+000D,
  U+001C to U+0020, U+0085 and U+00A0.\<close>

definition is_space :: "char \<Rightarrow> bool" where
  "is_space c =
     (let n = code c in (9 \<le> n \<and> n \<le> 13) \<or> (28 \<le> n \<and> n \<le> 32) \<or> n = 133 \<or> n = 160)"

definition strip :: "string \<Rightarrow> string" where
  "strip s = rev (dropWhile is_space (rev (dropWhile is_space s)))"

text \<open>\<^verbatim>\<open>sub in s\<close>: \<open>sub\<close> is a contiguous part of \<open>s\<close>.\<close>

fun str_contains :: "string \<Rightarrow> string \<Rightarrow> bool" where
  "str_contains sub [] = (sub = [])"
| "str_contains sub (c # s) = (prefix sub (c # s) \<or> str_contains sub s)"

text \<open>\<^verbatim>\<open>s.split(sep)\<close> for a separator of one character: never the empty list.\<close>

fun split_on :: "char \<Rightarrow> string \<Rightarrow> string list" where
  "split_on sep [] = [[]]"
| "split_on sep (c # s) =
     (if c = sep then [] # split_on sep s
      else (case split_on sep s of [] \<Rightarrow> [[c]] | p # ps \<Rightarrow> (c # p) # ps))"

text \<open>\<^verbatim>\<open>re.search(r'\d{4}', s)\<close>: the leftmost four consecutive digits, or no
  match.\<close>

definition is_digit :: "char \<Rightarrow> bool" where
  "is_digit c = (48 \<le> code c \<and> code c \<le> 57)"

fun search_4digits :: "string \<Rightarrow> string option" where
  "search_4digits [] = None"
| "search_4digits (c # s) =
     (if 4 \<le> length (c # s) \<and> list_all is_digit (take 4 (c # s)) then Some (take 4 (c # s))
      else search_4digits s)"

section \<open>The network and the effects of a run\<close>

text \<open>
  One \<^verbatim>\<open>session.get(url, timeout=timeout)\<close> ends in one of three ways: a response
  arrives (its status, the result of \<^verbatim>\<open>response.text()\<close> with \<open>None\<close> for a
  \<^verbatim>\<open>UnicodeDecodeError\<close>, and the bytes \<^verbatim>\<open>response.read()\<close> gives), the request
  times out (\<^verbatim>\<open>asyncio.TimeoutError\<close>), or any other exception is raised, with its
  message. A failure while the body is read is raised inside the same \<^verbatim>\<open>try\<close> and
  is an outcome of the last two kinds.
\<close>

type_synonym byte = "8 word"

datatype outcome =
    Response nat "string option" "byte list"
  | TimeoutError
  | OtherError string

text \<open>The parsed pages, as far as the crawler looks at them. An \<open>anchor\<close> is an
  \<^verbatim>\<open><a>\<close> tag with its \<^verbatim>\<open>href\<close> attribute, if it has one. A \<open>booklink\<close> is an
  element of \<^verbatim>\<open>soup.select('li.booklink')\<close>: its first anchor \<^verbatim>\<open>book.a\<close> and the
  texts of \<^verbatim>\<open>select_one('span.title')\<close> and \<^verbatim>\<open>select_one('span.subtitle')\<close>, each
  \<open>None\<close> when the element is missing. A \<open>row\<close> is a \<^verbatim>\<open>tr\<close> of the table of class
  \<^verbatim>\<open>bibrec\<close> with the texts of its first \<^verbatim>\<open>th\<close> and \<^verbatim>\<open>td\<close>.\<close>

record anchor =
  href :: "string option"

record booklink =
  a_tag :: "anchor option"
  span_title :: "string option"
  span_subtitle :: "string option"

record index_page =
  booklinks :: "booklink list"
  next_button :: "anchor option"

record row =
  th_cell :: "string option"
  td_cell :: "string option"

record detail_page =
  bibrec :: "row list option"

text \<open>
  The environment of a run: \<open>session_get e n url\<close> is the outcome of the request
  number \<open>n\<close> of the run (from 0) when it asks for \<open>url\<close>, so that a URL may answer
  differently each time it is asked; \<open>parse_index\<close> and \<open>parse_detail\<close> stand for
  BeautifulSoup and the selectors applied to a listing page and to a catalogue
  page.
\<close>

record env =
  session_get :: "nat \<Rightarrow> string \<Rightarrow> outcome"
  parse_index :: "string \<Rightarrow> index_page"
  parse_detail :: "string \<Rightarrow> detail_page"

text \<open>The entries written through \<^verbatim>\<open>logging\<close>, one constructor for each message
  of the source.\<close>

datatype log_entry =
    FailedStatus string nat
  | TimeoutOccurred string
  | ErrorFetching string string
  | FoundValid string
  | NoValid string
  | AllFailed string

text \<open>
  The effects of a run, in the order they happen: the URLs requested, the
  durations slept, the log, the number of \<^verbatim>\<open>progress.update(1)\<close> calls and the lines
  printed. \<open>calls\<close> is a history variable: the arguments of the calls of
  \<open>fetch_text\<close>.
\<close>

record world =
  requests :: "string list"
  slept :: "nat list"
  calls :: "string list"
  logged :: "log_entry list"
  progress :: nat
  printed :: "string list"

definition world0 :: world where
  "world0 = \<lparr>requests = [], slept = [], calls = [], logged = [], progress = 0, printed = []\<rparr>"

definition log :: "log_entry \<Rightarrow> world \<Rightarrow> world" where
  "log entry w = w\<lparr>logged := logged w @ [entry]\<rparr>"

section \<open>Transport: \<open>fetch_text\<close>\<close>

definition retries :: nat where
  "retries = 3"

text \<open>\<^verbatim>\<open>raw_text.decode('ISO-8859-1')\<close>: every byte is the character of its code.\<close>

definition decode_latin1 :: "byte list \<Rightarrow> string" where
  "decode_latin1 raw_text = map (\<lambda>b. char_of (unat b)) raw_text"

text \<open>The end of the loop body, reached after a timeout or another exception
  only: the branch of a status other than 200 leaves the body with
  \<^verbatim>\<open>continue\<close>.\<close>

definition backoff :: "nat \<Rightarrow> world \<Rightarrow> world" where
  "backoff attempt w =
     (if attempt < retries - 1 then w\<lparr>slept := slept w @ [2 ^ attempt]\<rparr> else w)"

text \<open>The loop \<^verbatim>\<open>for attempt in range(retries)\<close>, over the attempts left.\<close>

fun fetch_attempts :: "env \<Rightarrow> string \<Rightarrow> nat list \<Rightarrow> world \<Rightarrow> string option \<times> world" where
  "fetch_attempts e url [] w = (None, w)"
| "fetch_attempts e url (attempt # rest) w =
     (let w1 = w\<lparr>requests := requests w @ [url]\<rparr> in
      case session_get e (length (requests w)) url of
        Response status txt raw_text \<Rightarrow>
          if status = 200 then
            (case txt of
               Some t \<Rightarrow> (Some t, w1)
             | None \<Rightarrow> (Some (decode_latin1 raw_text), w1))
          else fetch_attempts e url rest (log (FailedStatus url status) w1)
      | TimeoutError \<Rightarrow>
          fetch_attempts e url rest (backoff attempt (log (TimeoutOccurred url) w1))
      | OtherError msg \<Rightarrow>
          fetch_attempts e url rest (backoff attempt (log (ErrorFetching url msg) w1)))"

definition fetch_text :: "env \<Rightarrow> string \<Rightarrow> world \<Rightarrow> string option \<times> world" where
  "fetch_text e url w = fetch_attempts e url [0..<retries] (w\<lparr>calls := calls w @ [url]\<rparr>)"

section \<open>Locator: \<open>get_book_data\<close>\<close>

definition extensions :: "string list" where
  "extensions = [''epub'', ''html'', ''pdf'', ''txt'', ''txt.utf8'']"

text \<open>The last probe of a loop body: \<^verbatim>\<open>text = await fetch_text(session, url)\<close> and
  the \<^verbatim>\<open>if text: ... else: ...\<close> after it. A result \<open>Some t\<close> is the text the
  function returns; \<open>None\<close> lets the loop go on.\<close>

definition probe_plain :: "env \<Rightarrow> string \<Rightarrow> world \<Rightarrow> string option \<times> world" where
  "probe_plain e url w =
     (case fetch_text e url w of
        (text, w1) \<Rightarrow>
          if truthy text then (text, log (FoundValid url) w1)
          else (None, log (NoValid url) w1))"

text \<open>The body of the loop over the extensions. The two loops of the source have
  the same body but for the start of the URL: \<open>stem\<close> is
  \<^verbatim>\<open>f"{base_url}/{book_id}-{i}"\<close> in the first and \<^verbatim>\<open>f"{base_url}/{book_id}"\<close> in
  the second.\<close>

definition probe_ext :: "env \<Rightarrow> string \<Rightarrow> string \<Rightarrow> world \<Rightarrow> string option \<times> world" where
  "probe_ext e stem ext w =
     (let url = stem @ ''.'' @ ext in
      if ext \<in> set [''epub'', ''html''] then
        (let url_no_images = stem @ ''.'' @ ext @ ''.noimages'' in
         case fetch_text e url_no_images w of
           (text, w1) \<Rightarrow>
             if truthy text then (text, log (FoundValid url_no_images) w1)
             else probe_plain e url w1)
      else probe_plain e url w)"

fun probe_exts :: "env \<Rightarrow> string \<Rightarrow> string list \<Rightarrow> world \<Rightarrow> string option \<times> world" where
  "probe_exts e stem [] w = (None, w)"
| "probe_exts e stem (ext # exts) w =
     (case probe_ext e stem ext w of
        (Some t, w1) \<Rightarrow> (Some t, w1)
      | (None, w1) \<Rightarrow> probe_exts e stem exts w1)"

text \<open>The loop \<^verbatim>\<open>for i in range(10)\<close>, over the versions left.\<close>

fun probe_versions ::
  "env \<Rightarrow> string \<Rightarrow> string \<Rightarrow> nat list \<Rightarrow> world \<Rightarrow> string option \<times> world" where
  "probe_versions e base_url book_id [] w = (None, w)"
| "probe_versions e base_url book_id (i # is) w =
     (case probe_exts e (base_url @ ''/'' @ book_id @ ''-'' @ str_nat i) extensions w of
        (Some t, w1) \<Rightarrow> (Some t, w1)
      | (None, w1) \<Rightarrow> probe_versions e base_url book_id is w1)"

definition get_book_data :: "env \<Rightarrow> string \<Rightarrow> world \<Rightarrow> string option \<times> world" where
  "get_book_data e book_id w =
     (let base_url = ''https://www.gutenberg.org/files/'' @ book_id in
      case probe_versions e base_url book_id [0..<10] w of
        (Some t, w1) \<Rightarrow> (Some t, w1)
      | (None, w1) \<Rightarrow>
          (case probe_exts e (base_url @ ''/'' @ book_id) extensions w1 of
             (Some t, w2) \<Rightarrow> (Some t, w2)
           | (None, w2) \<Rightarrow> (None, log (AllFailed book_id) w2)))"

subsection \<open>The Locator as the specification words it\<close>

text \<open>The order of the formats within one version, and the candidate URLs of a
  book: the versions 0 to 9, then the path with no version.\<close>

definition format_order :: "string list" where
  "format_order =
     [''epub.noimages'', ''epub'', ''html.noimages'', ''html'', ''pdf'', ''txt'', ''txt.utf8'']"

definition candidates :: "string \<Rightarrow> string list" where
  "candidates book_id =
     concat (map (\<lambda>i. map (\<lambda>f. ''https://www.gutenberg.org/files/'' @ book_id @ ''/'' @ book_id
                              @ ''-'' @ str_nat i @ ''.'' @ f) format_order) [0..<10])
     @ map (\<lambda>f. ''https://www.gutenberg.org/files/'' @ book_id @ ''/'' @ book_id @ ''.'' @ f)
         format_order"

text \<open>Probing a list of URLs in order until a probe gives content: the content (or
  \<open>None\<close>), the URLs probed, and the world after the last probe.\<close>

fun first_success ::
  "env \<Rightarrow> string list \<Rightarrow> world \<Rightarrow> string option \<times> string list \<times> world" where
  "first_success e [] w = (None, [], w)"
| "first_success e (url # urls) w =
     (case fetch_text e url w of
        (text, w1) \<Rightarrow>
          if truthy text then (text, [url], w1)
          else (case first_success e urls w1 of (r, probed, w2) \<Rightarrow> (r, url # probed, w2)))"

section \<open>Metadata Resolver: \<open>get_book_metadata\<close>\<close>

record metadata =
  year :: string
  language :: string

text \<open>The body of the loop over the rows of the table.\<close>

definition update_row :: "row \<Rightarrow> metadata \<Rightarrow> metadata" where
  "update_row r m =
     (let th_text = (case th_cell r of Some s \<Rightarrow> s | None \<Rightarrow> []);
          td_text = (case td_cell r of Some s \<Rightarrow> s | None \<Rightarrow> []);
          m1 = (if str_contains ''Release Date'' th_text then
                  (case search_4digits td_text of Some y \<Rightarrow> m\<lparr>year := y\<rparr> | None \<Rightarrow> m)
                else m)
      in if str_contains ''Language'' th_text then m1\<lparr>language := strip td_text\<rparr> else m1)"

definition get_book_metadata :: "env \<Rightarrow> string \<Rightarrow> world \<Rightarrow> metadata \<times> world" where
  "get_book_metadata e book_id w =
     (let url = ''https://www.gutenberg.org/ebooks/'' @ book_id;
          m0 = \<lparr>year = ''Unknown'', language = ''Unknown''\<rparr>
      in case fetch_text e url w of
           (text, w1) \<Rightarrow>
             (case text of
                None \<Rightarrow> (m0, w1)
              | Some t \<Rightarrow>
                  if t = [] then (m0, w1)
                  else (case bibrec (parse_detail e t) of
                          None \<Rightarrow> (m0, w1)
                        | Some rows \<Rightarrow> (fold update_row rows m0, w1))))"

section \<open>Orchestrator: \<open>download_books\<close>\<close>

datatype error = TypeError | KeyError string

record book_record =
  ID :: string
  Title :: string
  Author :: string
  Year :: string
  Text :: string

text \<open>\<^verbatim>\<open>book.a['href'].split('/')[-1]\<close>: a \<^verbatim>\<open>TypeError\<close> when the entry has no
  anchor, a \<^verbatim>\<open>KeyError\<close> when the anchor has no \<^verbatim>\<open>href\<close>.\<close>

definition book_id_of :: "booklink \<Rightarrow> error + string" where
  "book_id_of book =
     (case a_tag book of
        None \<Rightarrow> Inl TypeError
      | Some anc \<Rightarrow>
          (case href anc of
             None \<Rightarrow> Inl (KeyError ''href'')
           | Some h \<Rightarrow> Inr (last (split_on CHR ''/'' h))))"

text \<open>\<^verbatim>\<open>progress.update(1)\<close>.\<close>

definition progress_update :: "world \<Rightarrow> world" where
  "progress_update w = w\<lparr>progress := progress w + 1\<rparr>"

definition download_books ::
  "env \<Rightarrow> booklink \<Rightarrow> world \<Rightarrow> (error + book_record option) \<times> world" where
  "download_books e book w =
     (case book_id_of book of
        Inl err \<Rightarrow> (Inl err, w)
      | Inr book_id \<Rightarrow>
          (case get_book_metadata e book_id w of
             (m, w1) \<Rightarrow>
               if lower (language m) \<noteq> ''english'' then (Inr None, progress_update w1)
               else
                 (let title = (case span_title book of Some s \<Rightarrow> s | None \<Rightarrow> ''No Title'');
                      author = (case span_subtitle book of
                                  Some s \<Rightarrow> s | None \<Rightarrow> ''Unknown Author'')
                  in case get_book_data e book_id w1 of
                       (text, w2) \<Rightarrow>
                         (case text of
                            None \<Rightarrow> (Inr None, progress_update w2)
                          | Some t \<Rightarrow>
                              if t = [] then (Inr None, progress_update w2)
                              else (Inr (Some \<lparr>ID = book_id, Title = title, Author = author,
                                               Year = year m, Text = t\<rparr>),
                                    progress_update w2)))))"

section \<open>Index Walker: \<open>get_books_list\<close>\<close>

text \<open>The variables of the walk: \<^verbatim>\<open>index_url\<close>, \<^verbatim>\<open>books\<close> and
  \<^verbatim>\<open>processed_books\<close>. \<open>scheduled\<close> is a history variable: the identifier of every
  \<^verbatim>\<open>download_books\<close> unit appended to \<^verbatim>\<open>tasks\<close> since the run began, in order.\<close>

record crawl =
  index_url :: string
  books :: "book_record list"
  processed_books :: "string set"
  scheduled :: "string list"

text \<open>The loop \<^verbatim>\<open>for book in book_elements\<close>: the units appended to \<^verbatim>\<open>tasks\<close>, the
  set of processed identifiers and the history after it.\<close>

fun schedule ::
  "booklink list \<Rightarrow> booklink list \<Rightarrow> string set \<Rightarrow> string list
     \<Rightarrow> error + (booklink list \<times> string set \<times> string list)" where
  "schedule [] tasks processed hist = Inr (tasks, processed, hist)"
| "schedule (book # rest) tasks processed hist =
     (case book_id_of book of
        Inl err \<Rightarrow> Inl err
      | Inr book_id \<Rightarrow>
          if book_id \<notin> processed
          then schedule rest (tasks @ [book]) (insert book_id processed) (hist @ [book_id])
          else schedule rest tasks processed hist)"

text \<open>\<^verbatim>\<open>await asyncio.gather(*tasks)\<close>: the results of the units in the order of
  \<^verbatim>\<open>tasks\<close>. The units are run one after the other, in that order; an exception
  of a unit is raised to the caller.\<close>

fun gather :: "env \<Rightarrow> booklink list \<Rightarrow> world \<Rightarrow> (error + book_record option list) \<times> world" where
  "gather e [] w = (Inr [], w)"
| "gather e (book # tasks) w =
     (case download_books e book w of
        (Inl err, w1) \<Rightarrow> (Inl err, w1)
      | (Inr result, w1) \<Rightarrow>
          (case gather e tasks w1 of
             (Inl err, w2) \<Rightarrow> (Inl err, w2)
           | (Inr results, w2) \<Rightarrow> (Inr (result # results), w2)))"

text \<open>One pass through the body of \<^verbatim>\<open>while True\<close>: the loop goes round again
  (\<open>Continue\<close>), is left by \<^verbatim>\<open>break\<close> (\<open>Break\<close>), or an exception leaves the
  function (\<open>Raise\<close>). When \<^verbatim>\<open>text\<close> is \<^verbatim>\<open>None\<close> or empty the body ends with nothing
  changed, and the loop goes round again.\<close>

datatype step =
    Continue crawl world
  | Break crawl world
  | Raise error crawl world

definition page_step :: "env \<Rightarrow> crawl \<Rightarrow> world \<Rightarrow> step" where
  "page_step e c w =
     (case fetch_text e (index_url c) w of
        (text, w1) \<Rightarrow>
          (case text of
             None \<Rightarrow> Continue c w1
           | Some t \<Rightarrow>
               if t = [] then Continue c w1
               else
                 (let soup = parse_index e t;
                      book_elements = booklinks soup
                  in if book_elements = [] then Break c w1
                     else
                       (case schedule book_elements [] (processed_books c) (scheduled c) of
                          Inl err \<Rightarrow> Raise err c w1
                        | Inr (tasks, processed, hist) \<Rightarrow>
                            (let c1 = c\<lparr>processed_books := processed, scheduled := hist\<rparr> in
                             case gather e tasks w1 of
                               (Inl err, w2) \<Rightarrow> Raise err c1 w2
                             | (Inr results, w2) \<Rightarrow>
                                 (let c2 = c1\<lparr>books := books c1 @ List.map_filter id results\<rparr> in
                                  case next_button soup of
                                    None \<Rightarrow> Break c2 w2
                                  | Some anc \<Rightarrow>
                                      (case href anc of
                                         None \<Rightarrow> Raise (KeyError ''href'') c2 w2
                                       | Some h \<Rightarrow>
                                           Continue
                                             (c2\<lparr>index_url := ''https://www.gutenberg.org'' @ h\<rparr>)
                                             w2)))))))"

text \<open>The loop \<^verbatim>\<open>while True\<close>. A walk that never leaves the loop has the value
  \<open>None\<close>; one that returns gives \<^verbatim>\<open>books\<close> (or the exception), with the variables
  and the world at that moment.\<close>

partial_function (option) get_books_loop ::
  "env \<Rightarrow> crawl \<Rightarrow> world \<Rightarrow> ((error + book_record list) \<times> crawl \<times> world) option" where
  "get_books_loop e c w =
     (case page_step e c w of
        Continue c1 w1 \<Rightarrow> get_books_loop e c1 w1
      | Break c1 w1 \<Rightarrow> Some (Inr (books c1), c1, w1)
      | Raise err c1 w1 \<Rightarrow> Some (Inl err, c1, w1))"

definition crawl0 :: crawl where
  "crawl0 =
     \<lparr>index_url = ''https://www.gutenberg.org/ebooks/search/?sort_order=downloads&languages=en'',
      books = [], processed_books = {}, scheduled = []\<rparr>"

definition get_books_list :: "env \<Rightarrow> world \<Rightarrow> ((error + book_record list) \<times> world) option" where
  "get_books_list e w =
     (case get_books_loop e crawl0 w of
        None \<Rightarrow> None
      | Some (r, c, w1) \<Rightarrow> Some (r, w1))"

text \<open>The variables and the world after \<open>n\<close> passes through the loop body, or where
  the walk stopped before.\<close>

fun after_pages :: "env \<Rightarrow> nat \<Rightarrow> crawl \<Rightarrow> world \<Rightarrow> step" where
  "after_pages e 0 c w = Continue c w"
| "after_pages e (Suc n) c w =
     (case page_step e c w of
        Continue c1 w1 \<Rightarrow> after_pages e n c1 w1
      | Break c1 w1 \<Rightarrow> Break c1 w1
      | Raise err c1 w1 \<Rightarrow> Raise err c1 w1)"

fun crawl_of :: "step \<Rightarrow> crawl" where
  "crawl_of (Continue c w) = c"
| "crawl_of (Break c w) = c"
| "crawl_of (Raise err c w) = c"

fun world_of :: "step \<Rightarrow> world" where
  "world_of (Continue c w) = w"
| "world_of (Break c w) = w"
| "world_of (Raise err c w) = w"

section \<open>The Sink and the entry point\<close>





section \<open>Notions used in the statements\<close>


text \<open>The part of the world the network sees: the requests, the sleeps and the
  calls of \<open>fetch_text\<close>. The log is left out.\<close>

definition net :: "world \<Rightarrow> string list \<times> nat list \<times> string list" where
  "net w = (requests w, slept w, calls w)"

text \<open>The URLs the body of the loop over the extensions probes, in order.\<close>

definition ext_urls :: "string \<Rightarrow> string \<Rightarrow> string list" where
  "ext_urls stem ext =
     (if ext \<in> set [''epub'', ''html''] then [stem @ ''.'' @ ext @ ''.noimages'', stem @ ''.'' @ ext]
      else [stem @ ''.'' @ ext])"

text \<open>A result of the code and a result of \<open>first_success\<close> agree: the same
  content and the same effects on the network.\<close>

definition agree :: "string option \<times> world \<Rightarrow> string option \<times> string list \<times> world \<Rightarrow> bool" where
  "agree r s = (fst r = fst s \<and> net (snd r) = net (snd (snd s)))"

text \<open>The texts of the two cells of a row, as the loop over the rows reads them; the
  rows whose label contains "Language"; the rows whose label contains "Release
  Date" and whose value has four consecutive digits; the metadata a resolution
  starts from.\<close>

definition th_text :: "row \<Rightarrow> string" where
  "th_text r = (case th_cell r of Some s \<Rightarrow> s | None \<Rightarrow> [])"

definition td_text :: "row \<Rightarrow> string" where
  "td_text r = (case td_cell r of Some s \<Rightarrow> s | None \<Rightarrow> [])"




text \<open>A character that is the letter \<open>d\<close> (a lower-case letter a to z) in either
  case.\<close>

definition same_letter :: "char \<Rightarrow> char \<Rightarrow> bool" where
  "same_letter c d = (c = d \<or> code c + 32 = code d)"

text \<open>A listing entry from which an identifier can be read, and that identifier;
  the invariant of the walk: no identifier was scheduled twice, and the scheduled
  identifiers are the processed ones.\<close>

definition has_id :: "booklink \<Rightarrow> bool" where
  "has_id book = (case book_id_of book of Inl err \<Rightarrow> False | Inr book_id \<Rightarrow> True)"

definition the_id :: "booklink \<Rightarrow> string" where
  "the_id book = (case book_id_of book of Inl err \<Rightarrow> [] | Inr book_id \<Rightarrow> book_id)"

definition once :: "crawl \<Rightarrow> bool" where
  "once c = (distinct (scheduled c) \<and> set (scheduled c) = processed_books c)"

section \<open>Environments for the examples\<close>

definition no_index :: "string \<Rightarrow> index_page" where
  "no_index t = \<lparr>booklinks = [], next_button = None\<rparr>"

definition no_detail :: "string \<Rightarrow> detail_page" where
  "no_detail t = \<lparr>bibrec = None\<rparr>"

text \<open>Every request times out; every request is answered 404; the first request
  times out and the second is answered 200 with the one byte E9, which the
  primary decoding rejects.\<close>

definition env_timeouts :: env where
  "env_timeouts =
     \<lparr>session_get = (\<lambda>n url. TimeoutError), parse_index = no_index, parse_detail = no_detail\<rparr>"


definition env_latin1 :: env where
  "env_latin1 =
     \<lparr>session_get = (\<lambda>n url. if n = 0 then TimeoutError else Response 200 None [0xE9]),
      parse_index = no_index, parse_detail = no_detail\<rparr>"

text \<open>A book whose third candidate is the first to give content; a book whose
  first candidate answers 200 with an empty body and whose second gives content.\<close>

definition env_html :: env where
  "env_html =
     \<lparr>session_get =
        (\<lambda>n url. if url = ''https://www.gutenberg.org/files/7/7-0.html.noimages''
                  then Response 200 (Some ''<html>'') [] else Response 404 None []),
      parse_index = no_index, parse_detail = no_detail\<rparr>"

definition env_empty :: env where
  "env_empty =
     \<lparr>session_get =
        (\<lambda>n url. if url = ''https://www.gutenberg.org/files/1/1-0.epub.noimages''
                  then Response 200 (Some []) []
                  else if url = ''https://www.gutenberg.org/files/1/1-0.epub''
                  then Response 200 (Some ''x'') [] else Response 404 None []),
      parse_index = no_index, parse_detail = no_detail\<rparr>"

text \<open>A run with one book: book 12345 has content at its first candidate only,
  its catalogue page has the language English and the release year 1998, and the
  first listing page holds this one book, with neither a title nor an author
  element, and no next link.\<close>

definition book_a :: booklink where
  "book_a =
     \<lparr>a_tag = Some \<lparr>href = Some ''/ebooks/12345''\<rparr>, span_title = None, span_subtitle = None\<rparr>"

definition rows_a :: "row list" where
  "rows_a =
     [\<lparr>th_cell = Some ''Language'', td_cell = Some '' English ''\<rparr>,
      \<lparr>th_cell = Some ''Release Date'', td_cell = Some ''Jun 1, 1998 [eBook #12345]''\<rparr>,
      \<lparr>th_cell = Some ''Downloads'', td_cell = Some ''123456''\<rparr>]"

definition env_a :: env where
  "env_a =
     \<lparr>session_get =
        (\<lambda>n url. if url = ''https://www.gutenberg.org/ebooks/12345''
                  then Response 200 (Some ''<table class=bibrec>'') []
                  else if url = ''https://www.gutenberg.org/files/12345/12345-0.epub.noimages''
                  then Response 200 (Some ''Call me Ishmael.'') []
                  else if url = ''https://www.gutenberg.org/ebooks/search/?sort_order=downloads&languages=en''
                  then Response 200 (Some ''<li class=booklink>'') []
                  else Response 404 None []),
      parse_index =
        (\<lambda>t. \<lparr>booklinks = [book_a], next_button = None\<rparr>),
      parse_detail =
        (\<lambda>t. \<lparr>bibrec = Some rows_a\<rparr>)\<rparr>"

text \<open>A site whose every catalogue page gives the language French.\<close>

definition env_french :: env where
  "env_french =
     \<lparr>session_get = (\<lambda>n url. Response 200 (Some ''page'') []),
      parse_index = no_index,
      parse_detail = (\<lambda>t. \<lparr>bibrec = Some [\<lparr>th_cell = Some ''Language'', td_cell = Some ''French''\<rparr>]\<rparr>)\<rparr>"

text \<open>A site whose every listing page holds book 12345 and a next link.\<close>

definition next_page :: anchor where
  "next_page = \<lparr>href = Some ''/ebooks/search/?start_index=26''\<rparr>"


text \<open>A site with two listing pages: the first holds book 12345 and a next link,
  the second holds book 12345 again and book 67890, and no next link; every
  catalogue page gives the language French. The record of book 12345 in the run
  with one book.\<close>

definition book_c :: booklink where
  "book_c = \<lparr>a_tag = Some \<lparr>href = Some ''/ebooks/67890''\<rparr>,
     span_title = Some ''Walden'', span_subtitle = Some ''Thoreau''\<rparr>"

definition env_two :: env where
  "env_two =
     \<lparr>session_get =
        (\<lambda>n url. if url = ''https://www.gutenberg.org/ebooks/search/?sort_order=downloads&languages=en''
                  then Response 200 (Some ''p1'') []
                  else if url = ''https://www.gutenberg.org/ebooks/search/?start_index=26''
                  then Response 200 (Some ''p2'') []
                  else Response 200 (Some ''c'') []),
      parse_index =
        (\<lambda>t. if t = ''p1'' then \<lparr>booklinks = [book_a], next_button = Some next_page\<rparr>
             else \<lparr>booklinks = [book_a, book_c], next_button = None\<rparr>),
      parse_detail =
        (\<lambda>t. \<lparr>bibrec = Some [\<lparr>th_cell = Some ''Language'', td_cell = Some ''French''\<rparr>]\<rparr>)\<rparr>"


section \<open>The Transport: attempts, backoff and decoding\<close>

lemma requests_log [simp]: "requests (log x w) = requests w"
  and slept_log [simp]: "slept (log x w) = slept w"
  and calls_log [simp]: "calls (log x w) = calls w"
  and progress_log [simp]: "progress (log x w) = progress w"
  and printed_log [simp]: "printed (log x w) = printed w"
  and logged_log [simp]: "logged (log x w) = logged w @ [x]"
  by (simp_all add: log_def)

lemma requests_backoff [simp]: "requests (backoff a w) = requests w"
  and calls_backoff [simp]: "calls (backoff a w) = calls w"
  and progress_backoff [simp]: "progress (backoff a w) = progress w"
  and printed_backoff [simp]: "printed (backoff a w) = printed w"
  and logged_backoff [simp]: "logged (backoff a w) = logged w"
  by (simp_all add: backoff_def)

lemma upt3: "[0..<3] = [0, 1, 2]"
  by (simp add: upt_rec)








lemma fetch_attempts_success:
  "j < length atts \<Longrightarrow>
   session_get e (length (requests w) + j) url = Response 200 txt raw_text \<Longrightarrow>
   \<forall>i<j. \<forall>t r. session_get e (length (requests w) + i) url \<noteq> Response 200 t r \<Longrightarrow>
   fst (fetch_attempts e url atts w) =
     Some (case txt of Some t \<Rightarrow> t | None \<Rightarrow> decode_latin1 raw_text)"
proof (induction atts arbitrary: w j)
  case Nil
  then show ?case by simp
next
  case (Cons a atts)
  show ?case
  proof (cases j)
    case 0
    with Cons.prems show ?thesis by (simp split: option.splits)
  next
    case (Suc j')
    from Cons.prems(3) Suc
    have first: "\<forall>t r. session_get e (length (requests w)) url \<noteq> Response 200 t r"
      by (metis add.right_neutral zero_less_Suc)
    have later: "fst (fetch_attempts e url atts w1) =
        Some (case txt of Some t \<Rightarrow> t | None \<Rightarrow> decode_latin1 raw_text)"
      if len: "length (requests w1) = Suc (length (requests w))" for w1
    proof -
      have a: "j' < length atts" using Cons.prems(1) Suc by simp
      have b: "session_get e (length (requests w1) + j') url = Response 200 txt raw_text"
        using Cons.prems(2) Suc len by simp
      have c: "\<forall>i<j'. \<forall>t r. session_get e (length (requests w1) + i) url \<noteq> Response 200 t r"
      proof (intro allI impI)
        fix i t r assume "i < j'"
        then have "Suc i < j" using Suc by simp
        with Cons.prems(3)
        have "session_get e (length (requests w) + Suc i) url \<noteq> Response 200 t r"
          by blast
        then show "session_get e (length (requests w1) + i) url \<noteq> Response 200 t r"
          using len by simp
      qed
      show ?thesis by (rule Cons.IH [OF a b c])
    qed
    show ?thesis
    proof (cases "session_get e (length (requests w)) url")
      case (Response status t r)
      with first have "status \<noteq> 200" by blast
      with Response show ?thesis by (simp add: later)
    next
      case TimeoutError
      then show ?thesis by (simp add: later)
    next
      case (OtherError msg)
      then show ?thesis by (simp add: later)
    qed
  qed
qed

text \<open>
  C7. Whenever an attempt of \<open>fetch_text\<close> receives a response of status 200 (the
  attempt \<open>j\<close> of the call, no earlier attempt having received one), the call
  returns text and never \<open>None\<close>: the text of the primary decoding, or, when that
  decoding fails, the bytes of the body decoded as ISO-8859-1.
\<close>

theorem fetch_text_success:
  assumes "j < retries"
    and "session_get e (length (requests w) + j) url = Response 200 txt raw_text"
    and "\<forall>i<j. \<forall>t r. session_get e (length (requests w) + i) url \<noteq> Response 200 t r"
  shows "fst (fetch_text e url w) =
    Some (case txt of Some t \<Rightarrow> t | None \<Rightarrow> decode_latin1 raw_text)"
  unfolding fetch_text_def
  by (rule fetch_attempts_success) (use assms in simp_all)

text \<open>The theorem at the second attempt of a call whose first attempt timed out:
  the body is the byte E9, the primary decoding fails, and the call returns the
  character of code E9.\<close>

theorem fetch_text_success_witness:
  "session_get env_latin1 0 ''u'' = TimeoutError \<and>
   session_get env_latin1 1 ''u'' = Response 200 None [0xE9] \<and>
   fst (fetch_text env_latin1 ''u'' world0) = Some [char_of (0xE9 :: nat)]"
  using fetch_text_success [of 1 env_latin1 world0 "''u''" None "[0xE9]"]
  by (simp add: env_latin1_def world0_def retries_def decode_latin1_def)

section \<open>The Locator: order of the probes\<close>

lemma net_log [simp]: "net (log x w) = net w"
  by (simp add: net_def)

lemma net_backoff: "net w = net v \<Longrightarrow> net (backoff a w) = net (backoff a v)"
  by (simp add: net_def backoff_def)

lemma net_requests: "net w = net v \<Longrightarrow> net (w\<lparr>requests := requests w @ [u]\<rparr>) = net (v\<lparr>requests := requests v @ [u]\<rparr>)"
  by (simp add: net_def)

lemma fetch_attempts_net:
  "net w = net v \<Longrightarrow>
   fst (fetch_attempts e url atts w) = fst (fetch_attempts e url atts v) \<and>
   net (snd (fetch_attempts e url atts w)) = net (snd (fetch_attempts e url atts v))"
proof (induction atts arbitrary: w v)
  case Nil
  then show ?case by simp
next
  case (Cons a atts)
  have len: "length (requests w) = length (requests v)"
    using Cons.prems by (simp add: net_def)
  have step: "net (w\<lparr>requests := requests w @ [url]\<rparr>) = net (v\<lparr>requests := requests v @ [url]\<rparr>)"
    using Cons.prems by (rule net_requests)
  show ?case
  proof (cases "session_get e (length (requests v)) url")
    case (Response status tx raw_text)
    then show ?thesis
      using len step Cons.IH [of "log (FailedStatus url status) (w\<lparr>requests := requests w @ [url]\<rparr>)"
          "log (FailedStatus url status) (v\<lparr>requests := requests v @ [url]\<rparr>)"]
      by (simp add: Let_def split: option.splits)
  next
    case TimeoutError
    then show ?thesis
      using len Cons.IH [OF net_backoff [of "log (TimeoutOccurred url) (w\<lparr>requests := requests w @ [url]\<rparr>)"
            "log (TimeoutOccurred url) (v\<lparr>requests := requests v @ [url]\<rparr>)" a]] step
      by (simp add: Let_def)
  next
    case (OtherError msg)
    then show ?thesis
      using len Cons.IH [OF net_backoff [of "log (ErrorFetching url msg) (w\<lparr>requests := requests w @ [url]\<rparr>)"
            "log (ErrorFetching url msg) (v\<lparr>requests := requests v @ [url]\<rparr>)" a]] step
      by (simp add: Let_def)
  qed
qed

lemma fetch_text_net:
  assumes "net w = net v"
  shows "fst (fetch_text e url w) = fst (fetch_text e url v)"
    and "net (snd (fetch_text e url w)) = net (snd (fetch_text e url v))"
proof -
  have "net (w\<lparr>calls := calls w @ [url]\<rparr>) = net (v\<lparr>calls := calls v @ [url]\<rparr>)"
    using assms by (simp add: net_def)
  from fetch_attempts_net [OF this]
  show "fst (fetch_text e url w) = fst (fetch_text e url v)"
    and "net (snd (fetch_text e url w)) = net (snd (fetch_text e url v))"
    by (simp_all add: fetch_text_def)
qed

lemma first_success_Some: "first_success e urls w = (Some t, p, w1) \<Longrightarrow> t \<noteq> []"
  by (induction urls arbitrary: w p) (auto simp: truthy_def split: prod.splits if_splits option.splits)

lemma first_success_append:
  "first_success e (us @ vs) w =
     (case first_success e us w of
        (Some t, p, w1) \<Rightarrow> (Some t, p, w1)
      | (None, p, w1) \<Rightarrow> (case first_success e vs w1 of (r, q, w2) \<Rightarrow> (r, p @ q, w2)))"
proof (induction us arbitrary: w)
  case Nil
  then show ?case by (simp split: prod.splits)
next
  case (Cons u us)
  show ?case
    by (auto simp: Cons.IH truthy_def split: prod.splits option.splits)
qed

lemma probe_plain_agree:
  assumes "net w = net v"
  shows "agree (probe_plain e url w) (first_success e [url] v)"
proof -
  obtain tx w1 where f: "fetch_text e url w = (tx, w1)" by (cases "fetch_text e url w")
  obtain ty v1 where g: "fetch_text e url v = (ty, v1)" by (cases "fetch_text e url v")
  from fetch_text_net [OF assms, of e url] f g have "tx = ty" "net w1 = net v1" by simp_all
  then show ?thesis
    by (simp add: probe_plain_def agree_def f g truthy_def split: option.splits)
qed

lemma probe_ext_agree:
  assumes "net w = net v"
  shows "agree (probe_ext e stem ext w) (first_success e (ext_urls stem ext) v)"
proof (cases "ext \<in> set [''epub'', ''html'']")
  case False
  then show ?thesis
    using probe_plain_agree [OF assms, of e "stem @ ''.'' @ ext"]
    by (simp add: probe_ext_def ext_urls_def)
next
  case True
  let ?n = "stem @ ''.'' @ ext @ ''.noimages''"
  obtain tx w1 where f: "fetch_text e ?n w = (tx, w1)" by (cases "fetch_text e ?n w")
  obtain ty v1 where g: "fetch_text e ?n v = (ty, v1)" by (cases "fetch_text e ?n v")
  from fetch_text_net [OF assms, of e ?n] f g have eq: "tx = ty" "net w1 = net v1" by simp_all
  show ?thesis
  proof (cases "truthy tx")
    case t: True
    with True eq f g show ?thesis
      by (simp add: probe_ext_def ext_urls_def agree_def Let_def)
  next
    case nt: False
    from probe_plain_agree [OF eq(2), of e "stem @ ''.'' @ ext"]
    have "agree (probe_plain e (stem @ ''.'' @ ext) w1) (first_success e [stem @ ''.'' @ ext] v1)" .
    with True eq f g nt show ?thesis
      by (simp add: probe_ext_def ext_urls_def agree_def Let_def split: prod.splits)
  qed
qed

lemma agree_None_Some:
  "agree (r, w1) (s, p, v1) \<Longrightarrow> r = s \<and> net w1 = net v1"
  by (simp add: agree_def)

lemma probe_exts_agree:
  "net w = net v \<Longrightarrow>
   agree (probe_exts e stem exts w) (first_success e (concat (map (ext_urls stem) exts)) v)"
proof (induction exts arbitrary: w v)
  case Nil
  then show ?case by (simp add: agree_def)
next
  case (Cons ext exts)
  obtain r w1 where f: "probe_ext e stem ext w = (r, w1)" by (cases "probe_ext e stem ext w")
  obtain s p v1 where g: "first_success e (ext_urls stem ext) v = (s, p, v1)"
    by (cases "first_success e (ext_urls stem ext) v")
  from probe_ext_agree [OF Cons.prems, of e stem ext] f g
  have eq: "r = s" "net w1 = net v1" by (simp_all add: agree_def)
  show ?case
  proof (cases s)
    case None
    with Cons.IH [OF eq(2)] f g eq show ?thesis
      by (simp add: first_success_append agree_def split: prod.splits)
  next
    case (Some t)
    with f g eq show ?thesis
      by (simp add: first_success_append agree_def)
  qed
qed

lemma probe_versions_agree:
  "net w = net v \<Longrightarrow>
   agree (probe_versions e base_url book_id is w)
     (first_success e
        (concat (map (\<lambda>i. concat (map (ext_urls (base_url @ ''/'' @ book_id @ ''-'' @ str_nat i))
           extensions)) is)) v)"
proof (induction "is" arbitrary: w v)
  case Nil
  then show ?case by (simp add: agree_def)
next
  case (Cons i "is")
  let ?stem = "base_url @ ''/'' @ book_id @ ''-'' @ str_nat i"
  let ?us = "concat (map (ext_urls ?stem) extensions)"
  obtain r w1 where f: "probe_exts e ?stem extensions w = (r, w1)"
    by (cases "probe_exts e ?stem extensions w")
  obtain s p v1 where g: "first_success e ?us v = (s, p, v1)"
    by (cases "first_success e ?us v")
  from probe_exts_agree [OF Cons.prems, of e ?stem extensions] f g
  have eq: "r = s" "net w1 = net v1" by (simp_all add: agree_def)
  show ?case
  proof (cases s)
    case None
    with Cons.IH [OF eq(2)] f g eq show ?thesis
      by (simp add: first_success_append agree_def split: prod.splits)
  next
    case (Some t)
    with f g eq show ?thesis
      by (simp add: first_success_append agree_def)
  qed
qed

lemma ext_urls_extensions:
  "concat (map (ext_urls stem) extensions) = map (\<lambda>f. stem @ ''.'' @ f) format_order"
  by (simp add: ext_urls_def extensions_def format_order_def)

lemma candidates_alt:
  "candidates book_id =
     concat (map (\<lambda>i. concat (map (ext_urls ((''https://www.gutenberg.org/files/'' @ book_id) @ ''/'' @ book_id @ ''-'' @ str_nat i))
           extensions)) [0..<10])
     @ concat (map (ext_urls ((''https://www.gutenberg.org/files/'' @ book_id) @ ''/'' @ book_id)) extensions)"
  by (simp add: candidates_def ext_urls_extensions)

lemma get_book_data_agree:
  "agree (get_book_data e book_id w) (first_success e (candidates book_id) w)"
proof -
  let ?base = "''https://www.gutenberg.org/files/'' @ book_id"
  let ?vs = "concat (map (\<lambda>i. concat (map (ext_urls (?base @ ''/'' @ book_id @ ''-'' @ str_nat i))
           extensions)) [0..<10])"
  let ?us = "concat (map (ext_urls (?base @ ''/'' @ book_id)) extensions)"
  obtain r w1 where f: "probe_versions e ?base book_id [0..<10] w = (r, w1)"
    by (cases "probe_versions e ?base book_id [0..<10] w")
  obtain s p v1 where g: "first_success e ?vs w = (s, p, v1)"
    by (cases "first_success e ?vs w")
  from probe_versions_agree [of w w e ?base book_id "[0..<10]"] f g
  have eq: "r = s" "net w1 = net v1" by (simp_all add: agree_def)
  obtain r2 w2 where f2: "probe_exts e (?base @ ''/'' @ book_id) extensions w1 = (r2, w2)"
    by (cases "probe_exts e (?base @ ''/'' @ book_id) extensions w1")
  obtain s2 p2 v2 where g2: "first_success e ?us v1 = (s2, p2, v2)"
    by (cases "first_success e ?us v1")
  from probe_exts_agree [OF eq(2), of e "?base @ ''/'' @ book_id" extensions] f2 g2
  have eq2: "r2 = s2" "net w2 = net v2" by (simp_all add: agree_def)
  have "agree (get_book_data e book_id w) (first_success e (?vs @ ?us) w)"
  proof (cases s)
    case None
    show ?thesis
    proof (cases s2)
      case n2: None
      with None f g eq f2 g2 eq2 show ?thesis
        by (simp add: get_book_data_def first_success_append agree_def Let_def)
    next
      case (Some t)
      with None f g eq f2 g2 eq2 show ?thesis
        by (simp add: get_book_data_def first_success_append agree_def Let_def)
    qed
  next
    case (Some t)
    with f g eq show ?thesis
      by (simp add: get_book_data_def first_success_append agree_def Let_def)
  qed
  then show ?thesis by (simp only: candidates_alt)
qed

lemma calls_fetch_attempts [simp]:
  "calls (snd (fetch_attempts e url atts w)) = calls w"
  by (induction atts arbitrary: w) (simp_all add: Let_def split: outcome.splits option.splits)

lemma calls_fetch_text [simp]: "calls (snd (fetch_text e url w)) = calls w @ [url]"
  by (simp add: fetch_text_def)

lemma first_success_calls:
  "calls (snd (snd (first_success e urls w))) = calls w @ fst (snd (first_success e urls w))"
proof (induction urls arbitrary: w)
  case Nil
  then show ?case by simp
next
  case (Cons u urls)
  obtain tx w1 where f: "fetch_text e u w = (tx, w1)" by (cases "fetch_text e u w")
  then have c: "calls w1 = calls w @ [u]" using calls_fetch_text [of e u w] by simp
  obtain r p w2 where g: "first_success e urls w1 = (r, p, w2)"
    by (cases "first_success e urls w1")
  with Cons.IH [of w1] have "calls w2 = calls w1 @ p" by simp
  with f g c show ?case by simp
qed

lemma first_success_prefix: "prefix (fst (snd (first_success e urls w))) urls"
proof (induction urls arbitrary: w)
  case Nil
  then show ?case by simp
next
  case (Cons u urls)
  obtain tx w1 where f: "fetch_text e u w = (tx, w1)" by (cases "fetch_text e u w")
  obtain r p w2 where g: "first_success e urls w1 = (r, p, w2)"
    by (cases "first_success e urls w1")
  with Cons.IH [of w1] have "prefix p urls" by simp
  with f g show ?case by simp
qed

lemma first_success_None:
  "fst (first_success e urls w) = None \<Longrightarrow> fst (snd (first_success e urls w)) = urls"
proof (induction urls arbitrary: w)
  case Nil
  then show ?case by simp
next
  case (Cons u urls)
  obtain tx w1 where f: "fetch_text e u w = (tx, w1)" by (cases "fetch_text e u w")
  obtain r p w2 where g: "first_success e urls w1 = (r, p, w2)"
    by (cases "first_success e urls w1")
  show ?case
  proof (cases "truthy tx")
    case True
    with Cons.prems f show ?thesis by (simp add: truthy_def split: option.splits)
  next
    case False
    with Cons.prems f g have "r = None" by simp
    with Cons.IH [of w1] g have "p = urls" by simp
    with False f g show ?thesis by simp
  qed
qed

lemma length_candidates: "length (candidates book_id) = 77"
  by (simp add: candidates_def format_order_def length_concat comp_def sum_list_triv)

text \<open>The first and the last candidates of book 7.\<close>

lemma candidates_example:
  "take 8 (candidates ''7'') =
     [''https://www.gutenberg.org/files/7/7-0.epub.noimages'',
      ''https://www.gutenberg.org/files/7/7-0.epub'',
      ''https://www.gutenberg.org/files/7/7-0.html.noimages'',
      ''https://www.gutenberg.org/files/7/7-0.html'',
      ''https://www.gutenberg.org/files/7/7-0.pdf'',
      ''https://www.gutenberg.org/files/7/7-0.txt'',
      ''https://www.gutenberg.org/files/7/7-0.txt.utf8'',
      ''https://www.gutenberg.org/files/7/7-1.epub.noimages'']"
  "drop 69 (candidates ''7'') =
     [''https://www.gutenberg.org/files/7/7-9.txt.utf8'',
      ''https://www.gutenberg.org/files/7/7.epub.noimages'',
      ''https://www.gutenberg.org/files/7/7.epub'',
      ''https://www.gutenberg.org/files/7/7.html.noimages'',
      ''https://www.gutenberg.org/files/7/7.html'',
      ''https://www.gutenberg.org/files/7/7.pdf'',
      ''https://www.gutenberg.org/files/7/7.txt'',
      ''https://www.gutenberg.org/files/7/7.txt.utf8'']"
  by code_simp+

text \<open>
  C2. For every book identifier, \<open>get_book_data\<close> returns what probing the
  candidate URLs in their fixed order returns: the versions 0 to 9, each in the
  order no-images epub, plain epub, no-images html, plain html, pdf, txt,
  txt.utf8, then the paths with no version in the same order (77 URLs). The
  content of the first probe that gives content is returned, the URLs passed to
  \<open>fetch_text\<close> are exactly the candidates up to that one, in order, and the
  requests and sleeps are those of these probes; when no probe gives content the
  result is \<open>None\<close> and every candidate was probed. A probe gives content when
  \<open>fetch_text\<close> returns a non-empty string.
\<close>

theorem get_book_data_order:
  "fst (get_book_data e book_id w) = fst (first_success e (candidates book_id) w) \<and>
   requests (snd (get_book_data e book_id w))
     = requests (snd (snd (first_success e (candidates book_id) w))) \<and>
   slept (snd (get_book_data e book_id w))
     = slept (snd (snd (first_success e (candidates book_id) w))) \<and>
   calls (snd (get_book_data e book_id w))
     = calls w @ fst (snd (first_success e (candidates book_id) w)) \<and>
   prefix (fst (snd (first_success e (candidates book_id) w))) (candidates book_id) \<and>
   (fst (get_book_data e book_id w) = None \<longrightarrow>
      fst (snd (first_success e (candidates book_id) w)) = candidates book_id) \<and>
   length (candidates book_id) = 77"
proof -
  have a: "agree (get_book_data e book_id w) (first_success e (candidates book_id) w)"
    by (rule get_book_data_agree)
  then have r: "fst (get_book_data e book_id w) = fst (first_success e (candidates book_id) w)"
    and n: "net (snd (get_book_data e book_id w))
        = net (snd (snd (first_success e (candidates book_id) w)))"
    by (simp_all add: agree_def)
  from n have "calls (snd (get_book_data e book_id w))
      = calls (snd (snd (first_success e (candidates book_id) w)))"
    by (simp add: net_def)
  then have c: "calls (snd (get_book_data e book_id w))
      = calls w @ fst (snd (first_success e (candidates book_id) w))"
    by (simp add: first_success_calls)
  show ?thesis
    using r n c first_success_prefix [of e "candidates book_id" w]
      first_success_None [of e "candidates book_id" w] length_candidates [of book_id]
    by (simp add: net_def)
qed

text \<open>The theorem for a book whose only content is the no-images html of version
  0: three probes, in the order of the candidates.\<close>

lemma ev_html_result: "fst (first_success env_html (candidates ''7'') world0) = Some ''<html>''"
  by code_simp

lemma ev_html_probed: "fst (snd (first_success env_html (candidates ''7'') world0)) =
     [''https://www.gutenberg.org/files/7/7-0.epub.noimages'',
      ''https://www.gutenberg.org/files/7/7-0.epub'',
      ''https://www.gutenberg.org/files/7/7-0.html.noimages'']"
  by code_simp

theorem get_book_data_order_witness:
  "fst (get_book_data env_html ''7'' world0) = Some ''<html>'' \<and>
   calls (snd (get_book_data env_html ''7'' world0)) =
     [''https://www.gutenberg.org/files/7/7-0.epub.noimages'',
      ''https://www.gutenberg.org/files/7/7-0.epub'',
      ''https://www.gutenberg.org/files/7/7-0.html.noimages'']"
  using get_book_data_order [of env_html "''7''" world0] ev_html_result ev_html_probed
  by (simp add: world0_def)

section \<open>The Locator: empty content\<close>

lemma get_book_data_nonempty: "fst (get_book_data e book_id w) = Some t \<Longrightarrow> t \<noteq> []"
proof -
  assume a: "fst (get_book_data e book_id w) = Some t"
  obtain p w1 where "first_success e (candidates book_id) w = (Some t, p, w1)"
    using a get_book_data_agree [of e book_id w]
    by (cases "first_success e (candidates book_id) w") (simp add: agree_def)
  then show ?thesis by (rule first_success_Some)
qed

text \<open>
  C10, as the code has it. A candidate URL whose fetch succeeds with an empty
  string is treated exactly like one whose fetch fails, since only \<^verbatim>\<open>if text:\<close>
  looks at the result: for a plain candidate the Locator logs "No valid text" and
  goes on to the next candidate; for a no-images candidate it goes on to the plain
  URL of the same extension and logs nothing. Consequently, whenever the Locator
  returns content, that content is a non-empty string.
\<close>

theorem empty_text_like_failure:
  "((fst (fetch_text e url w) = None \<or> fst (fetch_text e url w) = Some []) \<longrightarrow>
      probe_plain e url w = (None, log (NoValid url) (snd (fetch_text e url w)))) \<and>
   (ext \<in> set [''epub'', ''html''] \<and>
    (fst (fetch_text e (stem @ ''.'' @ ext @ ''.noimages'') w) = None \<or>
     fst (fetch_text e (stem @ ''.'' @ ext @ ''.noimages'') w) = Some []) \<longrightarrow>
      probe_ext e stem ext w =
        probe_plain e (stem @ ''.'' @ ext)
          (snd (fetch_text e (stem @ ''.'' @ ext @ ''.noimages'') w))) \<and>
   (\<forall>t. fst (get_book_data e book_id w) = Some t \<longrightarrow> t \<noteq> [])"
proof (intro conjI impI allI)
  assume "fst (fetch_text e url w) = None \<or> fst (fetch_text e url w) = Some []"
  then show "probe_plain e url w = (None, log (NoValid url) (snd (fetch_text e url w)))"
    by (cases "fetch_text e url w") (auto simp: probe_plain_def truthy_def)
next
  let ?n = "stem @ ''.'' @ ext @ ''.noimages''"
  assume "ext \<in> set [''epub'', ''html''] \<and>
    (fst (fetch_text e ?n w) = None \<or> fst (fetch_text e ?n w) = Some [])"
  then show "probe_ext e stem ext w = probe_plain e (stem @ ''.'' @ ext) (snd (fetch_text e ?n w))"
    by (cases "fetch_text e ?n w") (auto simp: probe_ext_def truthy_def Let_def)
next
  fix t assume "fst (get_book_data e book_id w) = Some t"
  then show "t \<noteq> []" by (rule get_book_data_nonempty)
qed

text \<open>The theorem for the book whose no-images epub of version 0 answers 200 with
  an empty body and whose plain epub gives the content.\<close>

lemma ev_empty_fetch:
  "fst (fetch_text env_empty ''https://www.gutenberg.org/files/1/1-0.epub.noimages'' world0) = Some []"
  by code_simp

lemma ev_empty_result: "fst (get_book_data env_empty ''1'' world0) = Some ''x''"
  by code_simp

theorem empty_text_like_failure_witness:
  "fst (fetch_text env_empty ''https://www.gutenberg.org/files/1/1-0.epub.noimages'' world0) = Some [] \<and>
   probe_plain env_empty ''https://www.gutenberg.org/files/1/1-0.epub.noimages'' world0 =
     (None, log (NoValid ''https://www.gutenberg.org/files/1/1-0.epub.noimages'')
        (snd (fetch_text env_empty ''https://www.gutenberg.org/files/1/1-0.epub.noimages'' world0))) \<and>
   probe_ext env_empty ''https://www.gutenberg.org/files/1/1-0'' ''epub'' world0 =
     probe_plain env_empty ''https://www.gutenberg.org/files/1/1-0.epub''
       (snd (fetch_text env_empty ''https://www.gutenberg.org/files/1/1-0.epub.noimages'' world0)) \<and>
   fst (get_book_data env_empty ''1'' world0) = Some ''x'' \<and> ''x'' \<noteq> []"
  using empty_text_like_failure [of env_empty "''https://www.gutenberg.org/files/1/1-0.epub.noimages''"
      world0 "''epub''" "''https://www.gutenberg.org/files/1/1-0''" "''1''"]
    ev_empty_fetch ev_empty_result
  by simp

text \<open>
  C10 as stated fails for a no-images candidate: its fetch succeeds with an empty
  string, the Locator returns the content of the next candidate, and the log of
  the Locator holds no entry for the empty one.
\<close>

theorem get_book_data_log_counterexample:
  "fst (fetch_text env_empty ''https://www.gutenberg.org/files/1/1-0.epub.noimages'' world0) = Some [] \<and>
   fst (get_book_data env_empty ''1'' world0) = Some ''x'' \<and>
   logged (snd (get_book_data env_empty ''1'' world0)) =
     [FoundValid ''https://www.gutenberg.org/files/1/1-0.epub'']"
  by code_simp

section \<open>The Metadata Resolver\<close>











section \<open>The Orchestrator: one unit of work\<close>

text \<open>The test \<^verbatim>\<open>.lower() != 'english'\<close> compares without regard to case: a string
  lowers to "english" exactly when it is that word, each letter in either case.\<close>

lemma code_inj: "code c = code d \<Longrightarrow> c = d"
  by (simp add: code_def)

lemma code_less: "code c < 256"
  by (simp add: code_def)

lemma code_char_of: "m < 256 \<Longrightarrow> code (char_of m) = m"
  by (simp add: code_def)

lemma lower_char_letter:
  assumes "97 \<le> code d" and "code d \<le> 122"
  shows "lower_char c = d \<longleftrightarrow> same_letter c d"
proof (cases "(65 \<le> code c \<and> code c \<le> 90) \<or> (192 \<le> code c \<and> code c \<le> 222 \<and> code c \<noteq> 215)")
  case True
  then have l: "lower_char c = char_of (code c + 32)" by (simp add: lower_char_def Let_def)
  have m: "code c + 32 < 256" using True by auto
  have cl: "code (lower_char c) = code c + 32" using l code_char_of [OF m] by simp
  show ?thesis
  proof
    assume "lower_char c = d"
    with cl have "code c + 32 = code d" by simp
    then show "same_letter c d" by (simp add: same_letter_def)
  next
    assume "same_letter c d"
    then have "c = d \<or> code c + 32 = code d" by (simp add: same_letter_def)
    moreover have "c \<noteq> d" using True assms by auto
    ultimately have "code c + 32 = code d" by simp
    with cl have "code (lower_char c) = code d" by simp
    then show "lower_char c = d" by (rule code_inj)
  qed
next
  case False
  then have l: "lower_char c = c" by (auto simp: lower_char_def Let_def)
  have "code c + 32 \<noteq> code d" using False assms by auto
  then show ?thesis using l by (simp add: same_letter_def)
qed

lemma lower_english:
  "lower s = ''english'' \<longleftrightarrow> list_all2 same_letter s ''english''"
proof -
  have r: "\<And>d. d \<in> set ''english'' \<Longrightarrow> 97 \<le> code d \<and> code d \<le> 122"
    by (auto simp: code_def)
  have "lower s = t \<longleftrightarrow> list_all2 same_letter s t"
    if "\<And>d. d \<in> set t \<Longrightarrow> 97 \<le> code d \<and> code d \<le> 122" for t
    using that
  proof (induction s arbitrary: t)
    case Nil
    then show ?case by (auto simp: lower_def)
  next
    case (Cons c s)
    show ?case
    proof (cases t)
      case Nil
      then show ?thesis by (simp add: lower_def)
    next
      case (Cons d t')
      have "lower_char c = d \<longleftrightarrow> same_letter c d"
        using Cons.prems Cons by (intro lower_char_letter) auto
      moreover have "lower s = t' \<longleftrightarrow> list_all2 same_letter s t'"
        using Cons.prems Cons by (intro Cons.IH) auto
      ultimately show ?thesis using Cons by (simp add: lower_def)
    qed
  qed
  from this [OF r] show ?thesis by blast
qed

text \<open>
  C1. For every listing entry with an identifier, \<open>download_books\<close> emits a
  record if and only if the language of the resolved metadata, lower-cased,
  equals "english" and the Locator, run after the metadata, returns content. When
  the language does not match, nothing is emitted and the Locator is not run: the
  world after the unit is the world after the metadata with one more progress
  update. When the Locator returns \<open>None\<close>, nothing is emitted. An emitted record
  carries the identifier, the year of the metadata and the content the Locator
  returned. The test on the language is equality with "english" without regard to
  the case of the letters.
\<close>

theorem download_books_emits:
  assumes "book_id_of book = Inr book_id"
  shows "((\<exists>r. fst (download_books e book w) = Inr (Some r)) \<longleftrightarrow>
            lower (language (fst (get_book_metadata e book_id w))) = ''english'' \<and>
            fst (get_book_data e book_id (snd (get_book_metadata e book_id w))) \<noteq> None) \<and>
         (lower (language (fst (get_book_metadata e book_id w))) \<noteq> ''english'' \<longrightarrow>
            download_books e book w = (Inr None, progress_update (snd (get_book_metadata e book_id w)))) \<and>
         (lower (language (fst (get_book_metadata e book_id w))) = ''english'' \<and>
          fst (get_book_data e book_id (snd (get_book_metadata e book_id w))) = None \<longrightarrow>
            fst (download_books e book w) = Inr None) \<and>
         (\<forall>r. fst (download_books e book w) = Inr (Some r) \<longrightarrow>
            ID r = book_id \<and> Year r = year (fst (get_book_metadata e book_id w)) \<and>
            Some (Text r) = fst (get_book_data e book_id (snd (get_book_metadata e book_id w)))) \<and>
         (lower (language (fst (get_book_metadata e book_id w))) = ''english'' \<longleftrightarrow>
            list_all2 same_letter (language (fst (get_book_metadata e book_id w))) ''english'')"
proof -
  obtain m w1 where m: "get_book_metadata e book_id w = (m, w1)"
    by (cases "get_book_metadata e book_id w")
  obtain tx w2 where d: "get_book_data e book_id w1 = (tx, w2)"
    by (cases "get_book_data e book_id w1")
  have ne: "tx \<noteq> Some []"
    using get_book_data_nonempty [of e book_id w1 "[]"] d by auto
  have "(\<exists>r. fst (download_books e book w) = Inr (Some r)) \<longleftrightarrow>
            lower (language (fst (get_book_metadata e book_id w))) = ''english'' \<and>
            fst (get_book_data e book_id (snd (get_book_metadata e book_id w))) \<noteq> None"
    and "lower (language (fst (get_book_metadata e book_id w))) \<noteq> ''english'' \<longrightarrow>
            download_books e book w = (Inr None, progress_update (snd (get_book_metadata e book_id w)))"
    and "lower (language (fst (get_book_metadata e book_id w))) = ''english'' \<and>
          fst (get_book_data e book_id (snd (get_book_metadata e book_id w))) = None \<longrightarrow>
            fst (download_books e book w) = Inr None"
    and "\<forall>r. fst (download_books e book w) = Inr (Some r) \<longrightarrow>
            ID r = book_id \<and> Year r = year (fst (get_book_metadata e book_id w)) \<and>
            Some (Text r) = fst (get_book_data e book_id (snd (get_book_metadata e book_id w)))"
    using assms m d ne
    by (cases tx; auto simp: download_books_def Let_def)+
  then show ?thesis
    using lower_english [of "language (fst (get_book_metadata e book_id w))"] by blast
qed

lemma ev_book_a: "book_id_of book_a = Inr ''12345''"
  by code_simp

lemma ev_a_lower: "lower (language (fst (get_book_metadata env_a ''12345'' world0))) = ''english''"
  by code_simp

lemma ev_a_meta_year: "year (fst (get_book_metadata env_a ''12345'' world0)) = ''1998''"
  by code_simp

lemma ev_a_data:
  "fst (get_book_data env_a ''12345'' (snd (get_book_metadata env_a ''12345'' world0)))
     = Some ''Call me Ishmael.''"
  by code_simp

lemma ev_french_lower:
  "lower (language (fst (get_book_metadata env_french ''12345'' world0))) \<noteq> ''english''"
  by code_simp

lemma ev_french_calls:
  "calls (progress_update (snd (get_book_metadata env_french ''12345'' world0)))
     = [''https://www.gutenberg.org/ebooks/12345'']"
  by code_simp

text \<open>The theorem for book 12345 (English, with content), which is emitted with
  the year 1998, and for the same entry on the French site, which is not, after
  the one call for its catalogue page.\<close>

theorem download_books_emits_witness:
  "book_id_of book_a = Inr ''12345'' \<and>
   (\<exists>r. fst (download_books env_a book_a world0) = Inr (Some r) \<and>
        ID r = ''12345'' \<and> Year r = ''1998'' \<and> Text r = ''Call me Ishmael.'') \<and>
   fst (download_books env_french book_a world0) = Inr None \<and>
   calls (snd (download_books env_french book_a world0)) = [''https://www.gutenberg.org/ebooks/12345'']"
proof -
  note a = download_books_emits [OF ev_book_a, of env_a world0]
  note f = download_books_emits [OF ev_book_a, of env_french world0]
  have c: "fst (get_book_data env_a ''12345'' (snd (get_book_metadata env_a ''12345'' world0))) \<noteq> None"
    by (simp only: ev_a_data option.distinct not_False_eq_True)
  from a [THEN conjunct1, THEN iffD2, OF conjI [OF ev_a_lower c]]
  obtain r where r: "fst (download_books env_a book_a world0) = Inr (Some r)" ..
  from a [THEN conjunct2, THEN conjunct2, THEN conjunct2, THEN conjunct1, rule_format, OF r]
  have r1: "ID r = ''12345''"
    and r2: "Year r = year (fst (get_book_metadata env_a ''12345'' world0))"
    and r3: "Some (Text r) = fst (get_book_data env_a ''12345'' (snd (get_book_metadata env_a ''12345'' world0)))"
    by (rule conjunct1, rule conjunct2 [THEN conjunct1], rule conjunct2 [THEN conjunct2])
  from r2 have r2': "Year r = ''1998''" by (simp only: ev_a_meta_year)
  from r3 have r3': "Text r = ''Call me Ishmael.''" by (simp only: ev_a_data option.inject)
  from f [THEN conjunct2, THEN conjunct1, rule_format, OF ev_french_lower]
  have d: "download_books env_french book_a world0 =
      (Inr None, progress_update (snd (get_book_metadata env_french ''12345'' world0)))" .
  have d1: "fst (download_books env_french book_a world0) = Inr None"
    by (simp only: d fst_conv)
  have d2: "calls (snd (download_books env_french book_a world0)) = [''https://www.gutenberg.org/ebooks/12345'']"
    by (simp only: d snd_conv ev_french_calls)
  from r r1 r2' r3' have "\<exists>r. fst (download_books env_a book_a world0) = Inr (Some r) \<and>
        ID r = ''12345'' \<and> Year r = ''1998'' \<and> Text r = ''Call me Ishmael.''"
    by (intro exI [of _ r] conjI)
  with ev_book_a d1 d2 show ?thesis by (intro conjI)
qed

text \<open>
  C9. For every listing entry that passes the language filter and yields content,
  a record is emitted whose title is the text of the title element, or the literal
  "No Title" when the entry has none, and whose author is the text of the author
  element, or the literal "Unknown Author" when the entry has none: such entries
  are not skipped.
\<close>

theorem download_books_defaults:
  assumes "book_id_of book = Inr book_id"
    and "lower (language (fst (get_book_metadata e book_id w))) = ''english''"
    and "fst (get_book_data e book_id (snd (get_book_metadata e book_id w))) = Some t"
  shows "\<exists>r. fst (download_books e book w) = Inr (Some r) \<and>
           Title r = (case span_title book of Some s \<Rightarrow> s | None \<Rightarrow> ''No Title'') \<and>
           Author r = (case span_subtitle book of Some s \<Rightarrow> s | None \<Rightarrow> ''Unknown Author'') \<and>
           (span_title book = None \<longrightarrow> Title r = ''No Title'') \<and>
           (span_subtitle book = None \<longrightarrow> Author r = ''Unknown Author'')"
proof -
  obtain m w1 where m: "get_book_metadata e book_id w = (m, w1)"
    by (cases "get_book_metadata e book_id w")
  obtain tx w2 where d: "get_book_data e book_id w1 = (tx, w2)"
    by (cases "get_book_data e book_id w1")
  have ne: "t \<noteq> []"
    using get_book_data_nonempty [of e book_id w1 t] assms(3) m by simp
  show ?thesis
    using assms m d ne
    by (auto simp: download_books_def Let_def)
qed

text \<open>The theorem for the entry of book 12345, which has neither element.\<close>

theorem download_books_defaults_witness:
  "span_title book_a = None \<and> span_subtitle book_a = None \<and>
   (\<exists>r. fst (download_books env_a book_a world0) = Inr (Some r) \<and>
        Title r = ''No Title'' \<and> Author r = ''Unknown Author'')"
proof -
  have n1: "span_title book_a = None" and n2: "span_subtitle book_a = None"
    by (simp_all add: book_a_def)
  from download_books_defaults [OF ev_book_a ev_a_lower ev_a_data]
  obtain r where r: "fst (download_books env_a book_a world0) = Inr (Some r) \<and>
           Title r = (case span_title book_a of Some s \<Rightarrow> s | None \<Rightarrow> ''No Title'') \<and>
           Author r = (case span_subtitle book_a of Some s \<Rightarrow> s | None \<Rightarrow> ''Unknown Author'') \<and>
           (span_title book_a = None \<longrightarrow> Title r = ''No Title'') \<and>
           (span_subtitle book_a = None \<longrightarrow> Author r = ''Unknown Author'')" ..
  from r have a: "fst (download_books env_a book_a world0) = Inr (Some r)"
    by (rule conjunct1)
  from r [THEN conjunct2, THEN conjunct2, THEN conjunct2, THEN conjunct1, rule_format, OF n1]
  have b: "Title r = ''No Title''" .
  from r [THEN conjunct2, THEN conjunct2, THEN conjunct2, THEN conjunct2, rule_format, OF n2]
  have c: "Author r = ''Unknown Author''" .
  from a b c have "\<exists>r. fst (download_books env_a book_a world0) = Inr (Some r) \<and>
        Title r = ''No Title'' \<and> Author r = ''Unknown Author''"
    by (intro exI [of _ r] conjI)
  with n1 n2 show ?thesis by (intro conjI)
qed

section \<open>The Index Walker: scheduling\<close>

lemma schedule_new:
  "schedule bs tasks P h = Inr (tasks', P', h') \<Longrightarrow>
   \<exists>new. tasks' = tasks @ new \<and> h' = h @ map the_id new \<and> P' = P \<union> set (map the_id new) \<and>
         list_all has_id new \<and> distinct (map the_id new) \<and> set (map the_id new) \<inter> P = {}"
proof (induction bs arbitrary: tasks P h)
  case Nil
  then show ?case by simp
next
  case (Cons b bs)
  show ?case
  proof (cases "book_id_of b")
    case (Inl err)
    with Cons.prems show ?thesis by simp
  next
    case (Inr i)
    show ?thesis
    proof (cases "i \<in> P")
      case True
      with Cons.prems Inr have "schedule bs tasks P h = Inr (tasks', P', h')" by simp
      from Cons.IH [OF this] show ?thesis .
    next
      case False
      with Cons.prems Inr
      have "schedule bs (tasks @ [b]) (insert i P) (h @ [i]) = Inr (tasks', P', h')" by simp
      from Cons.IH [OF this] obtain new where
        n: "tasks' = (tasks @ [b]) @ new" "h' = (h @ [i]) @ map the_id new"
          "P' = insert i P \<union> set (map the_id new)" "list_all has_id new"
          "distinct (map the_id new)" "set (map the_id new) \<inter> insert i P = {}"
        by blast
      have b: "the_id b = i" "has_id b" using Inr by (simp_all add: the_id_def has_id_def)
      show ?thesis
      proof (intro exI [of _ "b # new"] conjI)
        show "tasks' = tasks @ b # new" using n(1) by simp
        show "h' = h @ map the_id (b # new)" using n(2) b by simp
        show "P' = P \<union> set (map the_id (b # new))" using n(3) b by auto
        show "list_all has_id (b # new)" using n(4) b by simp
        show "distinct (map the_id (b # new))" using n(5,6) b by auto
        show "set (map the_id (b # new)) \<inter> P = {}" using n(6) b False by auto
      qed
    qed
  qed
qed

lemma schedule_once:
  assumes "schedule bs [] (processed_books c) (scheduled c) = Inr (tasks, P, h)" and "once c"
  shows "once (c\<lparr>processed_books := P, scheduled := h\<rparr>)"
proof -
  from schedule_new [OF assms(1)] obtain new where
    n: "h = scheduled c @ map the_id new" "P = processed_books c \<union> set (map the_id new)"
      "distinct (map the_id new)" "set (map the_id new) \<inter> processed_books c = {}"
    by blast
  with assms(2) show ?thesis by (auto simp: once_def)
qed



lemma page_step_once: "once c \<Longrightarrow> once (crawl_of (page_step e c w))"
proof -
  assume o: "once c"
  obtain tx w1 where f: "fetch_text e (index_url c) w = (tx, w1)"
    by (cases "fetch_text e (index_url c) w")
  show ?thesis
  proof (cases "truthy tx")
    case False
    with f o show ?thesis by (auto simp: page_step_def truthy_def split: option.splits)
  next
    case True
    then obtain t where t: "tx = Some t" "t \<noteq> []" by (auto simp: truthy_def split: option.splits)
    show ?thesis
    proof (cases "booklinks (parse_index e t) = []")
      case True
      with f t o show ?thesis by (simp add: page_step_def)
    next
      case False
      show ?thesis
      proof (cases "schedule (booklinks (parse_index e t)) [] (processed_books c) (scheduled c)")
        case (Inl err)
        with f t o False show ?thesis by (simp add: page_step_def)
      next
        case (Inr res)
        obtain tasks P h where res: "res = (tasks, P, h)" by (cases res)
        from schedule_once [OF Inr [unfolded res] o]
        have o1: "once (c\<lparr>processed_books := P, scheduled := h\<rparr>)" .
        then have o2: "once (c\<lparr>processed_books := P, scheduled := h, books := bs\<rparr>)" for bs
          by (simp add: once_def)
        then have o3: "once (c\<lparr>processed_books := P, scheduled := h, books := bs, index_url := u\<rparr>)" for bs u
          by (simp add: once_def)
        show ?thesis
          using f t False Inr res o1 o2 o3
          by (simp add: page_step_def Let_def split: prod.splits sum.splits option.splits)
      qed
    qed
  qed
qed

lemma after_pages_once: "once c \<Longrightarrow> once (crawl_of (after_pages e n c w))"
proof (induction n arbitrary: c w)
  case 0
  then show ?case by simp
next
  case (Suc n)
  show ?case
  proof (cases "page_step e c w")
    case (Continue c1 w1)
    with page_step_once [OF Suc.prems, of e w] have "once c1" by simp
    from Suc.IH [OF this] Continue show ?thesis by simp
  next
    case (Break c1 w1)
    with page_step_once [OF Suc.prems, of e w] show ?thesis by simp
  next
    case (Raise err c1 w1)
    with page_step_once [OF Suc.prems, of e w] show ?thesis by simp
  qed
qed

lemma after_pages_Break:
  "after_pages e n c w = Break c' w' \<Longrightarrow> get_books_loop e c w = Some (Inr (books c'), c', w')"
proof (induction n arbitrary: c w)
  case 0
  then show ?case by simp
next
  case (Suc n)
  show ?case
  proof (cases "page_step e c w")
    case (Continue c1 w1)
    with Suc.prems have "after_pages e n c1 w1 = Break c' w'" by simp
    from Suc.IH [OF this] Continue show ?thesis
      by (subst get_books_loop.simps) simp
  next
    case (Break c1 w1)
    with Suc.prems show ?thesis by (subst get_books_loop.simps) simp
  next
    case (Raise err c1 w1)
    with Suc.prems show ?thesis by simp
  qed
qed

lemma loop_returns_after:
  assumes "get_books_loop e c w = Some y"
  shows "\<exists>n. crawl_of (after_pages e n c w) = fst (snd y)"
proof (rule get_books_loop.raw_induct
    [where P = "\<lambda>e c w y. \<exists>n. crawl_of (after_pages e n c w) = fst (snd y)", OF _ assms])
  fix loop :: "env \<Rightarrow> crawl \<Rightarrow> world \<Rightarrow> ((error + book_record list) \<times> crawl \<times> world) option"
  fix e c w y
  assume IH: "\<And>e c w y. loop e c w = Some y \<Longrightarrow> \<exists>n. crawl_of (after_pages e n c w) = fst (snd y)"
  assume body: "(case page_step e c w of
        Continue c1 w1 \<Rightarrow> loop e c1 w1
      | Break c1 w1 \<Rightarrow> Some (Inr (books c1), c1, w1)
      | Raise err c1 w1 \<Rightarrow> Some (Inl err, c1, w1)) = Some y"
  show "\<exists>n. crawl_of (after_pages e n c w) = fst (snd y)"
  proof (cases "page_step e c w")
    case (Continue c1 w1)
    with body have "loop e c1 w1 = Some y" by simp
    from IH [OF this] obtain n where "crawl_of (after_pages e n c1 w1) = fst (snd y)" by blast
    with Continue have "crawl_of (after_pages e (Suc n) c w) = fst (snd y)" by simp
    then show ?thesis by blast
  next
    case (Break c1 w1)
    with body have "crawl_of (after_pages e (Suc 0) c w) = fst (snd y)" by auto
    then show ?thesis by blast
  next
    case (Raise err c1 w1)
    with body have "crawl_of (after_pages e (Suc 0) c w) = fst (snd y)" by auto
    then show ?thesis by blast
  qed
qed

lemma once_crawl0: "once crawl0"
  by (simp add: once_def crawl0_def)

text \<open>
  C5. Within a run, every identifier is scheduled at most once. After any number
  of passes through the loop, and when the run returns, the identifiers scheduled
  since the run began are distinct and are exactly the processed set; the units a
  page schedules are entries with fresh, pairwise different identifiers, all
  added to the set by the scheduling loop, which ends before the units are run.
  So an identifier in the set is never scheduled again, whether it comes back on
  the same page or on a later one.
\<close>

theorem scheduled_at_most_once:
  "distinct (scheduled (crawl_of (after_pages e n crawl0 w))) \<and>
   set (scheduled (crawl_of (after_pages e n crawl0 w)))
     = processed_books (crawl_of (after_pages e n crawl0 w)) \<and>
   (\<forall>r c w'. get_books_loop e crawl0 w = Some (r, c, w') \<longrightarrow>
      distinct (scheduled c) \<and> set (scheduled c) = processed_books c) \<and>
   (\<forall>bs c tasks P h. schedule bs [] (processed_books c) (scheduled c) = Inr (tasks, P, h) \<longrightarrow>
      list_all has_id tasks \<and> h = scheduled c @ map the_id tasks \<and>
      distinct (map the_id tasks) \<and> set (map the_id tasks) \<inter> processed_books c = {} \<and>
      P = processed_books c \<union> set (map the_id tasks))"
proof (intro conjI allI impI)
  from after_pages_once [OF once_crawl0, of e n w]
  show "distinct (scheduled (crawl_of (after_pages e n crawl0 w)))"
    and "set (scheduled (crawl_of (after_pages e n crawl0 w)))
     = processed_books (crawl_of (after_pages e n crawl0 w))"
    by (simp_all add: once_def)
next
  fix r c w' assume a: "get_books_loop e crawl0 w = Some (r, c, w')"
  from loop_returns_after [OF a] obtain n where "crawl_of (after_pages e n crawl0 w) = c" by auto
  with after_pages_once [OF once_crawl0, of e n w]
  show "distinct (scheduled c)" and "set (scheduled c) = processed_books c"
    by (simp_all add: once_def)
next
  fix bs c tasks P h
  assume a: "schedule bs [] (processed_books c) (scheduled c) = Inr (tasks, P, h)"
  from schedule_new [OF a]
  show "list_all has_id tasks" and "h = scheduled c @ map the_id tasks"
    and "distinct (map the_id tasks)" and "set (map the_id tasks) \<inter> processed_books c = {}"
    and "P = processed_books c \<union> set (map the_id tasks)"
    by auto
qed


lemma ev_two_scheduled:
  "scheduled (crawl_of (after_pages env_two (Suc (Suc 0)) crawl0 world0)) = [''12345'', ''67890'']"
  by code_simp

lemma ev_two_calls:
  "calls (world_of (after_pages env_two (Suc (Suc 0)) crawl0 world0)) =
     [''https://www.gutenberg.org/ebooks/search/?sort_order=downloads&languages=en'',
      ''https://www.gutenberg.org/ebooks/12345'',
      ''https://www.gutenberg.org/ebooks/search/?start_index=26'',
      ''https://www.gutenberg.org/ebooks/67890'']"
  by code_simp

lemma ev_two_break:
  "(case after_pages env_two (Suc (Suc 0)) crawl0 world0 of
      Break c w \<Rightarrow> books c = [] | _ \<Rightarrow> False)"
  by code_simp

text \<open>The theorem on the site with two pages: book 12345 is on both and is
  scheduled once; its catalogue page is called for once.\<close>

theorem scheduled_at_most_once_witness:
  "scheduled (crawl_of (after_pages env_two (Suc (Suc 0)) crawl0 world0)) = [''12345'', ''67890''] \<and>
   distinct (scheduled (crawl_of (after_pages env_two (Suc (Suc 0)) crawl0 world0))) \<and>
   calls (world_of (after_pages env_two (Suc (Suc 0)) crawl0 world0)) =
     [''https://www.gutenberg.org/ebooks/search/?sort_order=downloads&languages=en'',
      ''https://www.gutenberg.org/ebooks/12345'',
      ''https://www.gutenberg.org/ebooks/search/?start_index=26'',
      ''https://www.gutenberg.org/ebooks/67890''] \<and>
   (\<exists>r c w'. get_books_loop env_two crawl0 world0 = Some (r, c, w') \<and> distinct (scheduled c))"
proof -
  note th = scheduled_at_most_once [of env_two "Suc (Suc 0)" world0]
  from th have d: "distinct (scheduled (crawl_of (after_pages env_two (Suc (Suc 0)) crawl0 world0)))"
    by (rule conjunct1)
  obtain c w' where b: "after_pages env_two (Suc (Suc 0)) crawl0 world0 = Break c w'"
    using ev_two_break by (cases "after_pages env_two (Suc (Suc 0)) crawl0 world0") simp_all
  from after_pages_Break [OF b]
  have l: "get_books_loop env_two crawl0 world0 = Some (Inr (books c), c, w')" .
  from th [THEN conjunct2, THEN conjunct2, THEN conjunct1, rule_format, OF l]
  have "distinct (scheduled c)" by (rule conjunct1)
  with l have "\<exists>r c w'. get_books_loop env_two crawl0 world0 = Some (r, c, w') \<and> distinct (scheduled c)"
    by (intro exI conjI)
  with ev_two_scheduled d ev_two_calls show ?thesis by (intro conjI)
qed

section \<open>The Index Walker: the end of the walk\<close>












text \<open>When the fetch of a listing page gives no content, the body of the loop ends
  and the loop goes round again with the same URL: there is no \<^verbatim>\<open>break\<close> on that
  path. On a site where every request times out the walk never returns.\<close>

lemma page_step_no_content:
  "\<not> truthy (fst (fetch_text e (index_url c) w)) \<Longrightarrow>
   page_step e c w = Continue c (snd (fetch_text e (index_url c) w))"
  by (cases "fetch_text e (index_url c) w") (auto simp: page_step_def truthy_def split: option.splits)

lemma fetch_text_timeouts: "fst (fetch_text env_timeouts url w) = None"
  by (simp add: fetch_text_def retries_def upt3 env_timeouts_def)

lemma loop_timeouts:
  assumes "get_books_loop e c w = Some y"
  shows "e \<noteq> env_timeouts"
proof (rule get_books_loop.raw_induct [where P = "\<lambda>e c w y. e \<noteq> env_timeouts", OF _ assms])
  fix loop :: "env \<Rightarrow> crawl \<Rightarrow> world \<Rightarrow> ((error + book_record list) \<times> crawl \<times> world) option"
  fix e c w y
  assume IH: "\<And>e c w y. loop e c w = Some y \<Longrightarrow> e \<noteq> env_timeouts"
  assume body: "(case page_step e c w of
        Continue c1 w1 \<Rightarrow> loop e c1 w1
      | Break c1 w1 \<Rightarrow> Some (Inr (books c1), c1, w1)
      | Raise err c1 w1 \<Rightarrow> Some (Inl err, c1, w1)) = Some y"
  show "e \<noteq> env_timeouts"
  proof
    assume e: "e = env_timeouts"
    have "page_step env_timeouts c w = Continue c (snd (fetch_text env_timeouts (index_url c) w))"
      by (rule page_step_no_content) (simp add: fetch_text_timeouts truthy_def)
    with body e have "loop env_timeouts c (snd (fetch_text env_timeouts (index_url c) w)) = Some y"
      by simp
    from IH [OF this] show False by simp
  qed
qed

lemma walk_timeouts: "get_books_list env_timeouts world0 = None"
proof (cases "get_books_loop env_timeouts crawl0 world0")
  case None
  then show ?thesis by (simp add: get_books_list_def)
next
  case (Some y)
  from loop_timeouts [OF this] show ?thesis by simp
qed

section \<open>The entry point\<close>





end
